theory Spec2Isabelle
  imports Complex_Main "HOL-Library.Sublist"
begin

section \<open>NumPy arrays and the errors the program can raise\<close>

text \<open>
  The program computes on NumPy arrays of dtype float. A 1-D array is the list of its
  entries, a 2-D array the list of its rows (all of one length). Arithmetic is the exact
  arithmetic of the reals: rounding, overflow to infinity and NaN are outside the model,
  so "equal within floating-point tolerance" reads as "equal".

  Two exceptions can reach the caller: the \<open>ValueError\<close> NumPy raises when two shapes do
  not broadcast (or when a maximum is taken of an empty array), and the
  \<open>ZeroDivisionError\<close> Python raises for \<open>1.0 / 0\<close> on its own numbers.
\<close>

type_synonym vec = "real list"
type_synonym matrix = "real list list"

datatype error = ValueError | ZeroDivisionError

text \<open>NumPy's broadcasting rule for one axis: equal extents, or one of them is 1.\<close>

definition broadcast_dim :: "nat \<Rightarrow> nat \<Rightarrow> error + nat" where
  "broadcast_dim m n =
     (if m = n then Inr m
      else if m = 1 then Inr n
      else if n = 1 then Inr m
      else Inl ValueError)"

text \<open>An axis of extent 1 is repeated to the broadcast extent; any other is kept.\<close>

definition stretch :: "nat \<Rightarrow> 'a list \<Rightarrow> 'a list" where
  "stretch n xs = (case xs of [x] \<Rightarrow> replicate n x | _ \<Rightarrow> xs)"

text \<open>\<open>A * pi[:, None]\<close>: row \<open>t\<close> of \<open>A\<close> times entry \<open>t\<close> of \<open>pi\<close>, after broadcasting.\<close>

definition scale_rows :: "matrix \<Rightarrow> vec \<Rightarrow> error + matrix" where
  "scale_rows A pv =
     (case broadcast_dim (length A) (length pv) of
        Inl e \<Rightarrow> Inl e
      | Inr n \<Rightarrow> Inr (map2 (\<lambda>row p. map (\<lambda>a. a * p) row) (stretch n A) (stretch n pv)))"

definition ncols :: "matrix \<Rightarrow> nat" where
  "ncols W = (case W of [] \<Rightarrow> 0 | row # _ \<Rightarrow> length row)"

definition column :: "matrix \<Rightarrow> nat \<Rightarrow> vec" where
  "column W r = map (\<lambda>row. row ! r) W"

text \<open>\<open>weighted.sum(axis=0, keepdims=True)\<close>: one total per column.\<close>

definition col_sums :: "matrix \<Rightarrow> vec" where
  "col_sums W = map (\<lambda>r. sum_list (column W r)) [0..<ncols W]"

text \<open>
  \<open>np.divide(weighted, col_sums, out=np.zeros_like(weighted), where=col_sums != 0)\<close>:
  the quotient where the column total is not zero, the zero of \<open>out\<close> elsewhere.
\<close>

definition safe_divide :: "matrix \<Rightarrow> vec \<Rightarrow> matrix" where
  "safe_divide W cs = map (\<lambda>row. map2 (\<lambda>w c. if c \<noteq> 0 then w / c else 0) row cs) W"

section \<open>The E-step and the M-step\<close>

definition e_step :: "vec \<Rightarrow> matrix \<Rightarrow> error + matrix" where
  "e_step transcript_abundance_vector assignment_matrix =
     (case scale_rows assignment_matrix transcript_abundance_vector of
        Inl e \<Rightarrow> Inl e
      | Inr weighted \<Rightarrow> Inr (safe_divide weighted (col_sums weighted)))"

text \<open>
  \<open>m_step\<close> reads only the posterior; the fallback divides Python numbers, so a posterior
  of zero rows raises \<open>ZeroDivisionError\<close>.
\<close>

definition m_step :: "matrix \<Rightarrow> matrix \<Rightarrow> error + vec" where
  "m_step posterior assignment_matrix =
     (let expected_counts = map sum_list posterior;
          total = sum_list expected_counts
      in if total > 0 then Inr (map (\<lambda>c. c / total) expected_counts)
         else (let T = length expected_counts
               in if T = 0 then Inl ZeroDivisionError
                  else Inr (replicate T (1 / real T))))"

section \<open>The iteration controller\<close>

text \<open>\<open>updated - alpha\<close> on 1-D arrays, with broadcasting.\<close>

definition vec_sub :: "vec \<Rightarrow> vec \<Rightarrow> error + vec" where
  "vec_sub u v =
     (case broadcast_dim (length u) (length v) of
        Inl e \<Rightarrow> Inl e
      | Inr n \<Rightarrow> Inr (map2 (\<lambda>x y. x - y) (stretch n u) (stretch n v)))"

text \<open>\<open>np.max\<close>: an empty array has no maximum.\<close>

fun np_max :: "vec \<Rightarrow> error + real" where
  "np_max [] = Inl ValueError"
| "np_max (x # xs) = Inr (fold max xs x)"

definition max_abs_diff :: "vec \<Rightarrow> vec \<Rightarrow> error + real" where
  "max_abs_diff updated alpha =
     (case vec_sub updated alpha of
        Inl e \<Rightarrow> Inl e
      | Inr d \<Rightarrow> np_max (map abs d))"

text \<open>What the program writes to standard output: the one warning it can print.\<close>

datatype event = NotConvergedWarning int

record em_result =
  final_abundance :: vec
  n_iterations :: int
  printed :: "event list"

text \<open>One EM iteration: the E-step, then the M-step on its posterior.\<close>

definition em_update :: "matrix \<Rightarrow> vec \<Rightarrow> error + vec" where
  "em_update assignment_matrix alpha =
     (case e_step alpha assignment_matrix of
        Inl e \<Rightarrow> Inl e
      | Inr posterior \<Rightarrow> m_step posterior assignment_matrix)"

text \<open>
  The \<open>for iteration in range(max_iters)\<close> loop: \<open>k\<close> iterations are left and
  \<open>iteration\<close> is the loop index. \<open>Some n\<close> is the early return at convergence with
  \<open>n = iteration + 1\<close>; \<open>None\<close> is the loop running out.
\<close>

fun em_loop :: "matrix \<Rightarrow> real \<Rightarrow> nat \<Rightarrow> nat \<Rightarrow> vec \<Rightarrow> error + (vec \<times> nat option)" where
  "em_loop assignment_matrix tol 0 iteration alpha = Inr (alpha, None)"
| "em_loop assignment_matrix tol (Suc k) iteration alpha =
     (case em_update assignment_matrix alpha of
        Inl e \<Rightarrow> Inl e
      | Inr updated \<Rightarrow>
          (case max_abs_diff updated alpha of
             Inl e \<Rightarrow> Inl e
           | Inr d \<Rightarrow>
               if d < tol then Inr (updated, Some (iteration + 1))
               else em_loop assignment_matrix tol k (iteration + 1) updated))"

text \<open>The starting vector: uniform over the rows, or a copy of the caller's.\<close>

definition initialize :: "matrix \<Rightarrow> vec option \<Rightarrow> error + vec" where
  "initialize assignment_matrix initial_abundance =
     (case initial_abundance of
        None \<Rightarrow>
          (let n_transcripts = length assignment_matrix
           in if n_transcripts = 0 then Inl ZeroDivisionError
              else Inr (replicate n_transcripts (1 / real n_transcripts)))
      | Some a \<Rightarrow> Inr a)"

definition run_em_algorithm :: "matrix \<Rightarrow> vec option \<Rightarrow> real \<Rightarrow> int \<Rightarrow> error + em_result" where
  "run_em_algorithm assignment_matrix initial_abundance tol max_iters =
     (case initialize assignment_matrix initial_abundance of
        Inl e \<Rightarrow> Inl e
      | Inr alpha \<Rightarrow>
          (case em_loop assignment_matrix tol (nat max_iters) 0 alpha of
             Inl e \<Rightarrow> Inl e
           | Inr (a, Some n) \<Rightarrow>
               Inr \<lparr>final_abundance = a, n_iterations = int n, printed = []\<rparr>
           | Inr (a, None) \<Rightarrow>
               Inr \<lparr>final_abundance = a, n_iterations = max_iters,
                    printed = [NotConvergedWarning max_iters]\<rparr>))"

section \<open>Arrays as objects: the store\<close>

text \<open>
  The functions above compute on array values. To speak about what a call leaves
  untouched, the same three functions are written once more over a store of array
  objects. A reference is the index of an object among the 1-D or among the 2-D arrays
  of the store; an object carries its dtype, since \<open>np.asarray(x, dtype=float)\<close> returns
  \<open>x\<close> itself when \<open>x\<close> is a float array and a converted copy otherwise. Every NumPy
  expression of the source that builds a new array allocates a new object; the one
  in-place write is \<open>np.divide(..., out=...)\<close>. Standard output is part of the store.
\<close>

datatype dtype = Int64 | Float64

record store =
  vectors :: "(dtype \<times> vec) list"
  matrices :: "(dtype \<times> matrix) list"
  stdout :: "event list"

type_synonym 'a comp = "store \<Rightarrow> (error + 'a) \<times> store"

definition bind_st :: "'a comp \<Rightarrow> ('a \<Rightarrow> 'b comp) \<Rightarrow> 'b comp" where
  "bind_st m f s = (case m s of (Inl e, s') \<Rightarrow> (Inl e, s') | (Inr x, s') \<Rightarrow> f x s')"

definition vec_at :: "store \<Rightarrow> nat \<Rightarrow> vec" where
  "vec_at s r = snd (vectors s ! r)"

definition mat_at :: "store \<Rightarrow> nat \<Rightarrow> matrix" where
  "mat_at s r = snd (matrices s ! r)"

definition new_vector :: "vec \<Rightarrow> nat comp" where
  "new_vector v s = (Inr (length (vectors s)), s\<lparr>vectors := vectors s @ [(Float64, v)]\<rparr>)"

definition new_matrix :: "matrix \<Rightarrow> nat comp" where
  "new_matrix m s = (Inr (length (matrices s)), s\<lparr>matrices := matrices s @ [(Float64, m)]\<rparr>)"

text \<open>\<open>np.asarray(x, dtype=float)\<close>, for a 1-D and for a 2-D array.\<close>

definition asarray_vector :: "nat \<Rightarrow> nat comp" where
  "asarray_vector r s =
     (if fst (vectors s ! r) = Float64 then (Inr r, s) else new_vector (vec_at s r) s)"

definition asarray_matrix :: "nat \<Rightarrow> nat comp" where
  "asarray_matrix r s =
     (if fst (matrices s ! r) = Float64 then (Inr r, s) else new_matrix (mat_at s r) s)"

text \<open>\<open>A * pi[:, None]\<close>: a new array, or the broadcasting error.\<close>

definition multiply_rows :: "nat \<Rightarrow> nat \<Rightarrow> nat comp" where
  "multiply_rows A pv s =
     (case scale_rows (mat_at s A) (vec_at s pv) of
        Inl e \<Rightarrow> (Inl e, s)
      | Inr W \<Rightarrow> new_matrix W s)"

text \<open>\<open>weighted.sum(axis=0, keepdims=True)\<close>: a new array of one row.\<close>

definition sum_axis0 :: "nat \<Rightarrow> nat comp" where
  "sum_axis0 W s = new_matrix [col_sums (mat_at s W)] s"

definition zeros_like :: "nat \<Rightarrow> nat comp" where
  "zeros_like W s = new_matrix (map (map (\<lambda>_. 0)) (mat_at s W)) s"

text \<open>
  The entries \<open>np.divide\<close> leaves in \<open>out\<close>: the quotient where the divisor is not zero,
  what \<open>out\<close> held elsewhere. The three arrays have one shape (after broadcasting).
\<close>

definition masked_divide :: "matrix \<Rightarrow> matrix \<Rightarrow> matrix \<Rightarrow> matrix" where
  "masked_divide W C out =
     map2 (\<lambda>(wrow, crow) orow.
             map2 (\<lambda>(w, c) old. if c \<noteq> 0 then w / c else old) (zip wrow crow) orow)
          (zip W C) out"

text \<open>
  \<open>np.divide(weighted, col_sums, out=out, where=col_sums != 0)\<close>: the one row of
  \<open>col_sums\<close> is broadcast over the rows of \<open>weighted\<close>, the result is written into the
  object \<open>out\<close>, and \<open>out\<close> is what the call returns.
\<close>

definition divide_where :: "nat \<Rightarrow> nat \<Rightarrow> nat \<Rightarrow> nat comp" where
  "divide_where W cs out s =
     (Inr out,
      s\<lparr>matrices := (matrices s)
           [out := (Float64,
                    masked_divide (mat_at s W)
                      (stretch (length (mat_at s W)) (mat_at s cs)) (mat_at s out))]\<rparr>)"

definition e_step_st :: "nat \<Rightarrow> nat \<Rightarrow> nat comp" where
  "e_step_st transcript_abundance_vector assignment_matrix =
     bind_st (asarray_matrix assignment_matrix) (\<lambda>A.
     bind_st (asarray_vector transcript_abundance_vector) (\<lambda>pv.
     bind_st (multiply_rows A pv) (\<lambda>weighted.
     bind_st (sum_axis0 weighted) (\<lambda>col_sums.
     bind_st (zeros_like weighted) (\<lambda>out.
     divide_where weighted col_sums out)))))"

text \<open>\<open>.sum(axis=1)\<close>: a new 1-D array of the row sums.\<close>

definition sum_axis1 :: "nat \<Rightarrow> nat comp" where
  "sum_axis1 P s = new_vector (map sum_list (mat_at s P)) s"

definition m_step_st :: "nat \<Rightarrow> nat \<Rightarrow> nat comp" where
  "m_step_st posterior assignment_matrix =
     bind_st (asarray_matrix posterior) (\<lambda>P.
     bind_st (sum_axis1 P) (\<lambda>expected_counts s.
       let total = sum_list (vec_at s expected_counts)
       in if total > 0 then new_vector (map (\<lambda>c. c / total) (vec_at s expected_counts)) s
          else (let T = length (vec_at s expected_counts)
                in if T = 0 then (Inl ZeroDivisionError, s)
                   else new_vector (replicate T (1 / real T)) s)))"

text \<open>\<open>np.max(np.abs(updated - alpha))\<close>: two new arrays and a number.\<close>

definition max_abs_diff_st :: "nat \<Rightarrow> nat \<Rightarrow> real comp" where
  "max_abs_diff_st updated alpha =
     bind_st (\<lambda>s. case vec_sub (vec_at s updated) (vec_at s alpha) of
                    Inl e \<Rightarrow> (Inl e, s)
                  | Inr d \<Rightarrow> new_vector d s) (\<lambda>diff.
     bind_st (\<lambda>s. new_vector (map abs (vec_at s diff)) s) (\<lambda>absdiff s.
       (np_max (vec_at s absdiff), s)))"

fun em_loop_st :: "nat \<Rightarrow> real \<Rightarrow> nat \<Rightarrow> nat \<Rightarrow> nat \<Rightarrow> (nat \<times> nat option) comp" where
  "em_loop_st assignment_matrix tol 0 iteration alpha s = (Inr (alpha, None), s)"
| "em_loop_st assignment_matrix tol (Suc k) iteration alpha s =
     (case e_step_st alpha assignment_matrix s of
        (Inl e, s1) \<Rightarrow> (Inl e, s1)
      | (Inr posterior, s1) \<Rightarrow>
          (case m_step_st posterior assignment_matrix s1 of
             (Inl e, s2) \<Rightarrow> (Inl e, s2)
           | (Inr updated, s2) \<Rightarrow>
               (case max_abs_diff_st updated alpha s2 of
                  (Inl e, s3) \<Rightarrow> (Inl e, s3)
                | (Inr d, s3) \<Rightarrow>
                    if d < tol then (Inr (updated, Some (iteration + 1)), s3)
                    else em_loop_st assignment_matrix tol k (iteration + 1) updated s3)))"

text \<open>
  The starting vector is always a new object: \<open>np.full\<close>, or \<open>.copy()\<close> of what
  \<open>np.asarray\<close> gives for the caller's array.
\<close>

definition initialize_st :: "nat \<Rightarrow> nat option \<Rightarrow> nat comp" where
  "initialize_st assignment_matrix initial_abundance s =
     (case initial_abundance of
        None \<Rightarrow>
          (let n_transcripts = length (mat_at s assignment_matrix)
           in if n_transcripts = 0 then (Inl ZeroDivisionError, s)
              else new_vector (replicate n_transcripts (1 / real n_transcripts)) s)
      | Some r \<Rightarrow> bind_st (asarray_vector r) (\<lambda>a s. new_vector (vec_at s a) s) s)"

definition print :: "event \<Rightarrow> unit comp" where
  "print ev s = (Inr (), s\<lparr>stdout := stdout s @ [ev]\<rparr>)"

definition run_em_algorithm_st :: "nat \<Rightarrow> nat option \<Rightarrow> real \<Rightarrow> int \<Rightarrow> (nat \<times> int) comp" where
  "run_em_algorithm_st assignment_matrix initial_abundance tol max_iters =
     bind_st (initialize_st assignment_matrix initial_abundance) (\<lambda>alpha.
     bind_st (em_loop_st assignment_matrix tol (nat max_iters) 0 alpha) (\<lambda>(a, n).
       case n of
         Some n \<Rightarrow> (\<lambda>s. (Inr (a, int n), s))
       | None \<Rightarrow>
           bind_st (print (NotConvergedWarning max_iters)) (\<lambda>_ s. (Inr (a, max_iters), s))))"

text \<open>
  One store extends another when every array object of the first is still there, at the
  same reference, with the same dtype and entries.
\<close>

definition unchanged :: "store \<Rightarrow> store \<Rightarrow> bool" where
  "unchanged s s' \<longleftrightarrow> prefix (vectors s) (vectors s') \<and> prefix (matrices s) (matrices s')"

text \<open>
  What a caller observes of a call started in store \<open>s\<close>: the exception, or the entries
  of the returned array, the returned count and what the call printed.
\<close>

definition observed :: "store \<Rightarrow> (error + nat \<times> int) \<times> store \<Rightarrow> error + em_result" where
  "observed s out =
     (case out of
        (Inl e, s') \<Rightarrow> Inl e
      | (Inr (r, n), s') \<Rightarrow>
          Inr \<lparr>final_abundance = vec_at s' r, n_iterations = n,
               printed = drop (length (stdout s)) (stdout s')\<rparr>)"

text \<open>
  Two stores for concrete runs. The first holds the arrays of the step-by-step
  demonstration (an integer matrix, a float start vector) and the posterior of its
  E-step. The second holds the same matrix as a float array, at another reference, among
  other objects and after earlier output.
\<close>

definition demo_store :: store where
  "demo_store =
     \<lparr>vectors = [(Float64, [3 / 5, 2 / 5])],
      matrices = [(Int64, [[1, 0], [1, 1]]), (Float64, [[3 / 5, 0], [2 / 5, 1]])],
      stdout = []\<rparr>"

definition demo_store_float :: store where
  "demo_store_float =
     \<lparr>vectors = [(Float64, [1]), (Float64, [3 / 5, 2 / 5])],
      matrices = [(Float64, [[7]]), (Float64, [[1, 0], [1, 1]])],
      stdout = [NotConvergedWarning 3]\<rparr>"

section \<open>Every step is defined on well-shaped input\<close>

lemma stretch_same: "length xs = n \<Longrightarrow> stretch n xs = xs"
  by (cases xs; cases "tl xs") (auto simp: stretch_def split: list.splits)

lemma scale_rows_same:
  "length pv = length A \<Longrightarrow>
   scale_rows A pv = Inr (map2 (\<lambda>row p. map (\<lambda>a. a * p) row) A pv)"
  by (simp add: scale_rows_def broadcast_dim_def stretch_same)

lemma length_safe_divide: "length (safe_divide W cs) = length W"
  by (simp add: safe_divide_def)

lemma e_step_same:
  "length pv = length A \<Longrightarrow> \<exists>P. e_step pv A = Inr P \<and> length P = length A"
  by (simp add: e_step_def scale_rows_same length_safe_divide)

lemma sum_list_divide: "sum_list (map (\<lambda>c. c / t) xs) = sum_list xs / (t::real)"
  by (induction xs) (simp_all add: add_divide_distrib)

lemma sum_list_uniform: "0 < n \<Longrightarrow> sum_list (replicate n (1 / real n)) = 1"
  by (simp add: sum_list_replicate)

lemma m_step_total:
  "P \<noteq> [] \<Longrightarrow> \<exists>u. m_step P A = Inr u \<and> length u = length P \<and> sum_list u = 1"
proof (cases "0 < sum_list (map sum_list P)")
  case True
  have "sum_list (map (\<lambda>c. c / sum_list (map sum_list P)) (map sum_list P)) = 1"
    using True by (simp only: sum_list_divide) simp
  with True show ?thesis
    by (simp add: m_step_def Let_def del: map_map)
next
  case False
  assume "P \<noteq> []"
  with False show ?thesis
    by (simp add: m_step_def Let_def sum_list_uniform)
qed

lemma em_update_total:
  assumes "length alpha = length A" "A \<noteq> []"
  shows "\<exists>u. em_update A alpha = Inr u \<and> length u = length A \<and> sum_list u = 1"
proof -
  from e_step_same [OF assms(1)] obtain P where P: "e_step alpha A = Inr P" "length P = length A"
    by blast
  with assms(2) have "P \<noteq> []" by auto
  from m_step_total [OF this, of A] P show ?thesis
    by (auto simp: em_update_def)
qed

lemma vec_sub_same:
  "length u = length v \<Longrightarrow> vec_sub u v = Inr (map2 (\<lambda>x y. x - y) u v)"
  by (simp add: vec_sub_def broadcast_dim_def stretch_same)

lemma max_abs_diff_total:
  "length u = length v \<Longrightarrow> u \<noteq> [] \<Longrightarrow> \<exists>d. max_abs_diff u v = Inr d"
  by (cases u; cases v) (auto simp: max_abs_diff_def vec_sub_same)

lemma em_loop_total:
  "length alpha = length A \<Longrightarrow> A \<noteq> [] \<Longrightarrow>
   \<exists>a st. em_loop A tol k i alpha = Inr (a, st) \<and> length a = length A"
proof (induction k arbitrary: i alpha)
  case 0
  then show ?case by simp
next
  case (Suc k)
  from em_update_total [OF Suc.prems] obtain u
    where u: "em_update A alpha = Inr u" "length u = length A" by blast
  with Suc.prems have "length u = length alpha" "u \<noteq> []" by auto
  from max_abs_diff_total [OF this] obtain d where d: "max_abs_diff u alpha = Inr d" by blast
  show ?case
  proof (cases "d < tol")
    case True
    with u d show ?thesis by simp
  next
    case False
    with u d Suc.IH [OF u(2) Suc.prems(2), of "i + 1"] show ?thesis by simp
  qed
qed


section \<open>The controller at a fixed point and with an empty budget\<close>

lemma max_abs_diff_self: "u \<noteq> [] \<Longrightarrow> max_abs_diff u u = Inr 0"
proof -
  assume "u \<noteq> []"
  then obtain x xs where u: "u = x # xs" by (cases u) auto
  have z: "map2 (\<lambda>x y. x - y) v v = replicate (length v) 0" for v :: vec
    by (induction v) simp_all
  have f: "fold max (replicate n 0) (0::real) = 0" for n
    by (induction n) (simp_all del: fold_replicate)
  show ?thesis
    by (simp add: max_abs_diff_def vec_sub_same z u f del: fold_replicate)
qed

lemma m_step_nonempty: "m_step P A = Inr u \<Longrightarrow> u \<noteq> []"
  by (auto simp: m_step_def Let_def split: if_splits)

lemma em_update_nonempty: "em_update A alpha = Inr u \<Longrightarrow> u \<noteq> []"
  by (auto simp: em_update_def split: sum.splits dest: m_step_nonempty)

text \<open>
  Claim C6. Whatever the assignment matrix, a positive tolerance and an iteration budget
  of at least one: when one EM iteration (the E-step followed by the M-step) maps the
  vector \<open>pv\<close> to itself, \<open>run_em_algorithm\<close> started from \<open>pv\<close> returns \<open>pv\<close>
  with iteration count 1, through the convergence branch (nothing is printed).
\<close>

theorem fixed_point_one_iteration:
  assumes "em_update A pv = Inr pv" and "0 < tol" and "1 \<le> max_iters"
  shows "run_em_algorithm A (Some pv) tol max_iters =
         Inr \<lparr>final_abundance = pv, n_iterations = 1, printed = []\<rparr>"
proof -
  from assms(3) obtain k where k: "nat max_iters = Suc k"
    by (cases "nat max_iters") auto
  from assms(1) have "pv \<noteq> []" by (rule em_update_nonempty)
  then have "max_abs_diff pv pv = Inr 0" by (rule max_abs_diff_self)
  with assms(1,2) have "em_loop A tol (Suc k) 0 pv = Inr (pv, Some 1)" by simp
  then show ?thesis
    by (simp add: run_em_algorithm_def initialize_def k)
qed

theorem fixed_point_one_iteration_witness:
  "em_update [[1, 1], [1, 1]] [1 / 2, 1 / 2] = Inr [1 / 2, 1 / 2] \<and>
   run_em_algorithm [[1, 1], [1, 1]] (Some [1 / 2, 1 / 2]) (1 / 10000) 10000 =
     Inr \<lparr>final_abundance = [1 / 2, 1 / 2], n_iterations = 1, printed = []\<rparr>"
proof -
  have h: "em_update [[1, 1], [1, 1]] [1 / 2, 1 / 2] = Inr [1 / 2, 1 / 2]"
    by (simp add: em_update_def e_step_def m_step_def scale_rows_def broadcast_dim_def
        stretch_def col_sums_def ncols_def column_def safe_divide_def eval_nat_numeral)
  from fixed_point_one_iteration [OF h, of "1 / 10000" 10000] h show ?thesis by simp
qed

text \<open>
  Claim C9. With \<open>max_iters = 0\<close> the loop body never runs: the result is the starting
  vector, the caller's as it was given (whatever it sums to) or the uniform one over the
  rows of a matrix that has rows, with iteration count 0. The call goes through the
  exhausted branch, so the warning is printed.
\<close>

theorem zero_budget_returns_start:
  "run_em_algorithm A (Some pv) tol 0 =
     Inr \<lparr>final_abundance = pv, n_iterations = 0, printed = [NotConvergedWarning 0]\<rparr> \<and>
   (A \<noteq> [] \<longrightarrow>
    run_em_algorithm A None tol 0 =
      Inr \<lparr>final_abundance = replicate (length A) (1 / real (length A)),
           n_iterations = 0, printed = [NotConvergedWarning 0]\<rparr>)"
  by (simp add: run_em_algorithm_def initialize_def Let_def)

theorem zero_budget_returns_start_witness:
  "run_em_algorithm [[1, 0], [1, 1]] (Some [3, 4]) (1 / 10000) 0 =
     Inr \<lparr>final_abundance = [3, 4], n_iterations = 0, printed = [NotConvergedWarning 0]\<rparr> \<and>
   run_em_algorithm [[1, 0], [1, 1]] None (1 / 10000) 0 =
     Inr \<lparr>final_abundance = [1 / 2, 1 / 2], n_iterations = 0,
          printed = [NotConvergedWarning 0]\<rparr>"
  using zero_budget_returns_start [of "[[1, 0], [1, 1]]" "[3, 4]" "1 / 10000"]
  by (simp add: eval_nat_numeral)

section \<open>A budget of one iteration\<close>

lemma initialize_total:
  assumes "A \<noteq> []"
    and "case init of None \<Rightarrow> True | Some pv \<Rightarrow> length pv = length A"
  shows "\<exists>alpha. initialize A init = Inr alpha \<and> length alpha = length A"
  using assms by (cases init) (simp_all add: initialize_def Let_def)

text \<open>
  Claim C7 (as amended). For a matrix of two or more rows and a starting vector that is
  absent or as long as the matrix has rows, \<open>max_iters = 1\<close> never raises: the call
  returns the vector of one EM iteration with iteration count 1. The warning is printed
  exactly when the largest change \<open>d\<close> of that iteration is not below the tolerance; when
  it is below, the call returns through the convergence branch and prints nothing.
\<close>

theorem single_iteration_budget:
  assumes "2 \<le> length A"
    and "case init of None \<Rightarrow> True | Some pv \<Rightarrow> length pv = length A"
  shows "\<exists>alpha updated d.
           initialize A init = Inr alpha \<and>
           em_update A alpha = Inr updated \<and>
           max_abs_diff updated alpha = Inr d \<and>
           run_em_algorithm A init tol 1 =
             Inr \<lparr>final_abundance = updated, n_iterations = 1,
                  printed = (if d < tol then [] else [NotConvergedWarning 1])\<rparr>"
proof -
  from assms(1) have ne: "A \<noteq> []" by auto
  from initialize_total [OF ne assms(2)] obtain alpha
    where a: "initialize A init = Inr alpha" "length alpha = length A" by blast
  from em_update_total [OF a(2) ne] obtain u
    where u: "em_update A alpha = Inr u" "length u = length A" by blast
  with a(2) ne have "length u = length alpha" "u \<noteq> []" by auto
  from max_abs_diff_total [OF this] obtain d where d: "max_abs_diff u alpha = Inr d" by blast
  have "em_loop A tol (Suc 0) 0 alpha = Inr (u, if d < tol then Some 1 else None)"
    using u d by simp
  then have "run_em_algorithm A init tol 1 =
      Inr \<lparr>final_abundance = u, n_iterations = 1,
           printed = (if d < tol then [] else [NotConvergedWarning 1])\<rparr>"
    using a(1) by (simp add: run_em_algorithm_def)
  with a(1) u(1) d show ?thesis by blast
qed

lemmas eval_defs = run_em_algorithm_def initialize_def em_update_def e_step_def m_step_def
  scale_rows_def broadcast_dim_def stretch_def col_sums_def ncols_def column_def
  safe_divide_def max_abs_diff_def vec_sub_def

theorem single_iteration_budget_witness:
  "run_em_algorithm [[1, 0], [1, 1]] None (1 / 10000) 1 =
     Inr \<lparr>final_abundance = [1 / 4, 3 / 4], n_iterations = 1,
          printed = [NotConvergedWarning 1]\<rparr>"
proof -
  have "2 \<le> length [[1, 0], [1, 1::real]]" by simp
  from single_iteration_budget [OF this, of None "1 / 10000"]
  show ?thesis
    by (auto simp add: initialize_def em_update_def e_step_def m_step_def
      scale_rows_def broadcast_dim_def stretch_def col_sums_def ncols_def column_def
      safe_divide_def max_abs_diff_def vec_sub_def eval_nat_numeral)
qed

text \<open>
  The claim as stated fails on the matrix of the repository's own edge-case test: from
  the uniform start the first iteration already converges, so no warning is printed.
\<close>

theorem single_iteration_converged_counterexample:
  "run_em_algorithm [[1, 1], [1, 1]] None (1 / 10000) 1 =
     Inr \<lparr>final_abundance = [1 / 2, 1 / 2], n_iterations = 1, printed = []\<rparr>"
  by (simp add: eval_defs eval_nat_numeral)

section \<open>The M-step returns a point of the simplex\<close>




section \<open>Malformed input\<close>








section \<open>Transcripts with identical rows\<close>

lemma e_step_rows:
  assumes "length pv = length A" "t < length A" "e_step pv A = Inr P"
  shows "P ! t = map2 (\<lambda>w c. if c \<noteq> 0 then w / c else 0) (map (\<lambda>a. a * pv ! t) (A ! t))
                   (col_sums (map2 (\<lambda>row p. map (\<lambda>a. a * p) row) A pv))"
  using assms by (auto simp: e_step_def scale_rows_same safe_divide_def)

lemma m_step_entry:
  assumes "m_step P A = Inr u" "t < length P"
  shows "u ! t = (if 0 < sum_list (map sum_list P)
                  then sum_list (P ! t) / sum_list (map sum_list P)
                  else 1 / real (length P))"
  using assms by (auto simp: m_step_def Let_def split: if_splits)

lemma em_update_equal:
  assumes "length alpha = length A" "i < length A" "j < length A"
    and "A ! i = A ! j" "alpha ! i = alpha ! j" "em_update A alpha = Inr u"
  shows "u ! i = u ! j"
proof -
  from e_step_same [OF assms(1)] obtain P
    where P: "e_step alpha A = Inr P" "length P = length A" by blast
  with assms(6) have u: "m_step P A = Inr u" by (simp add: em_update_def)
  have "P ! i = P ! j"
    using e_step_rows [OF assms(1,2) P(1)] e_step_rows [OF assms(1,3) P(1)] assms(4,5)
    by simp
  then show ?thesis
    using m_step_entry [OF u, of i] m_step_entry [OF u, of j] assms(2,3) P(2) by simp
qed

lemma em_update_length:
  "length alpha = length A \<Longrightarrow> em_update A alpha = Inr u \<Longrightarrow> length u = length A"
  using e_step_same [of alpha A]
  by (auto simp: em_update_def m_step_def Let_def split: if_splits)

lemma em_loop_equal:
  assumes "i < length A" "j < length A" "A ! i = A ! j"
  shows "length alpha = length A \<Longrightarrow> alpha ! i = alpha ! j \<Longrightarrow>
         em_loop A tol k n alpha = Inr (r, st) \<Longrightarrow> r ! i = r ! j"
proof (induction k arbitrary: n alpha)
  case 0
  then show ?case by simp
next
  case (Suc k)
  from Suc.prems(3) obtain u d
    where u: "em_update A alpha = Inr u" and d: "max_abs_diff u alpha = Inr d"
    by (auto split: sum.splits)
  have eq: "u ! i = u ! j"
    using em_update_equal [OF Suc.prems(1) assms Suc.prems(2) u] .
  have len: "length u = length A"
    using em_update_length [OF Suc.prems(1) u] .
  show ?case
  proof (cases "d < tol")
    case True
    with Suc.prems(3) u d eq show ?thesis by simp
  next
    case False
    with Suc.prems(3) u d have "em_loop A tol k (n + 1) u = Inr (r, st)" by simp
    from Suc.IH [OF len eq this] show ?thesis .
  qed
qed

text \<open>
  Claim C5 (as amended). When rows \<open>i\<close> and \<open>j\<close> of the matrix are identical and the
  starting vector is absent, or has one entry per row and equal entries at \<open>i\<close> and
  \<open>j\<close>, \<open>run_em_algorithm\<close> returns a vector with equal entries at \<open>i\<close> and \<open>j\<close>,
  whether the loop converged or ran out.
\<close>

theorem identical_rows_equal_shares:
  assumes "i < length A" "j < length A" "A ! i = A ! j"
    and "case init of None \<Rightarrow> True
         | Some pv \<Rightarrow> length pv = length A \<and> pv ! i = pv ! j"
  shows "\<exists>res. run_em_algorithm A init tol max_iters = Inr res \<and>
               length (final_abundance res) = length A \<and>
               final_abundance res ! i = final_abundance res ! j"
proof -
  from assms(1) have ne: "A \<noteq> []" by auto
  have "\<exists>alpha. initialize A init = Inr alpha \<and> length alpha = length A \<and>
                alpha ! i = alpha ! j"
    using assms(1,2,4) ne by (cases init) (simp_all add: initialize_def Let_def)
  then obtain alpha where a: "initialize A init = Inr alpha" "length alpha = length A"
    "alpha ! i = alpha ! j" by blast
  from em_loop_total [OF a(2) ne, of tol "nat max_iters" 0] obtain r st
    where r: "em_loop A tol (nat max_iters) 0 alpha = Inr (r, st)" "length r = length A"
    by blast
  from em_loop_equal [OF assms(1-3) a(2,3) r(1)] have "r ! i = r ! j" .
  with a(1) r show ?thesis
    by (cases st) (simp_all add: run_em_algorithm_def)
qed

theorem identical_rows_equal_shares_witness:
  "\<exists>res. run_em_algorithm [[1, 0], [1, 0], [0, 1]] None (1 / 10000) 10000 = Inr res \<and>
         length (final_abundance res) = 3 \<and>
         final_abundance res ! 0 = final_abundance res ! 1"
  using identical_rows_equal_shares [of 0 "[[1, 0], [1, 0], [0, 1]]" 1 None "1 / 10000" 10000]
  by (simp add: eval_nat_numeral)

text \<open>
  The claim as stated fails for a start that treats the two rows differently: it is a
  fixed point of the iteration, so it is returned as it is.
\<close>

theorem unequal_start_counterexample:
  "run_em_algorithm [[1, 1], [1, 1]] (Some [3 / 4, 1 / 4]) (1 / 10000) 10000 =
     Inr \<lparr>final_abundance = [3 / 4, 1 / 4], n_iterations = 1, printed = []\<rparr>"
  by (simp add: eval_defs eval_nat_numeral)

section \<open>The columns of the posterior\<close>

lemma scaled_row_lengths:
  assumes "\<forall>row \<in> set A. length row = R"
  shows "\<forall>row \<in> set (map2 (\<lambda>row p. map (\<lambda>a. a * p) row) A pv). length row = R"
  using assms by (auto dest: set_zip_leftD)

lemma ncols_rect: "W \<noteq> [] \<Longrightarrow> \<forall>row \<in> set W. length row = R \<Longrightarrow> ncols W = R"
  by (cases W) (simp_all add: ncols_def)








section \<open>The result of a run is a non-negative vector of sum 1\<close>

lemma col_sums_nonneg:
  assumes "\<forall>row \<in> set W. length row = ncols W" "\<forall>row \<in> set W. \<forall>x \<in> set row. 0 \<le> x"
  shows "\<forall>c \<in> set (col_sums W). (0::real) \<le> c"
proof -
  have "0 \<le> sum_list (column W r)" if "r < ncols W" for r
  proof (rule sum_list_nonneg)
    fix x assume "x \<in> set (column W r)"
    then obtain row where "row \<in> set W" "x = row ! r" by (auto simp: column_def)
    with assms that show "0 \<le> x" by auto
  qed
  then show ?thesis by (auto simp: col_sums_def)
qed

lemma safe_divide_nonneg:
  assumes "\<forall>row \<in> set W. \<forall>x \<in> set row. 0 \<le> x" "\<forall>c \<in> set cs. 0 \<le> c"
  shows "\<forall>row \<in> set (safe_divide W cs). \<forall>x \<in> set row. 0 \<le> x"
proof (intro ballI)
  fix row x assume "row \<in> set (safe_divide W cs)" "x \<in> set row"
  then obtain wrow w c where "wrow \<in> set W" "(w, c) \<in> set (zip wrow cs)"
    "x = (if c \<noteq> 0 then w / c else 0)"
    by (auto simp: safe_divide_def)
  moreover from this have "w \<in> set wrow" "c \<in> set cs"
    by (auto dest: set_zip_leftD set_zip_rightD)
  ultimately show "0 \<le> x" using assms by auto
qed

lemma e_step_nonneg:
  assumes "length pv = length A" "\<forall>row \<in> set A. length row = R"
    and "\<forall>row \<in> set A. \<forall>a \<in> set row. 0 \<le> a" "\<forall>p \<in> set pv. 0 \<le> p"
    and "e_step pv A = Inr P"
  shows "\<forall>row \<in> set P. \<forall>x \<in> set row. 0 \<le> x"
proof -
  define W where "W = map2 (\<lambda>row p. map (\<lambda>a. a * p) row) A pv"
  have P: "P = safe_divide W (col_sums W)"
    using assms(1,5) by (simp add: e_step_def scale_rows_same W_def)
  have nonnegW: "\<forall>row \<in> set W. \<forall>x \<in> set row. 0 \<le> x"
  proof (intro ballI)
    fix row x assume "row \<in> set W" "x \<in> set row"
    then obtain arow p a where "(arow, p) \<in> set (zip A pv)" "a \<in> set arow" "x = a * p"
      by (auto simp: W_def)
    moreover from this have "arow \<in> set A" "p \<in> set pv"
      by (auto dest: set_zip_leftD set_zip_rightD)
    ultimately show "0 \<le> x" using assms(3,4) by auto
  qed
  have rectW: "\<forall>row \<in> set W. length row = R"
    unfolding W_def using assms(2) by (rule scaled_row_lengths)
  have "\<forall>row \<in> set W. length row = ncols W"
  proof (cases "W = []")
    case True then show ?thesis by simp
  next
    case False
    from ncols_rect [OF this rectW] rectW show ?thesis by simp
  qed
  from col_sums_nonneg [OF this nonnegW] have "\<forall>c \<in> set (col_sums W). 0 \<le> c" .
  from safe_divide_nonneg [OF nonnegW this] show ?thesis by (simp add: P)
qed

lemma m_step_nonneg:
  assumes "\<forall>row \<in> set P. \<forall>x \<in> set row. (0::real) \<le> x" "m_step P A = Inr u"
  shows "\<forall>x \<in> set u. 0 \<le> x"
proof -
  have "\<forall>row \<in> set P. 0 \<le> sum_list row"
    using assms(1) by (auto intro: sum_list_nonneg)
  with assms(2) show ?thesis
    by (auto simp: m_step_def Let_def split: if_splits intro!: divide_nonneg_pos)
qed

lemma em_update_simplex:
  assumes "length alpha = length A" "\<forall>row \<in> set A. length row = R"
    and "\<forall>row \<in> set A. \<forall>a \<in> set row. 0 \<le> a" "\<forall>p \<in> set alpha. 0 \<le> p"
    and "em_update A alpha = Inr u"
  shows "length u = length A \<and> (\<forall>x \<in> set u. 0 \<le> x) \<and> sum_list u = 1"
proof -
  from e_step_same [OF assms(1)] obtain P
    where P: "e_step alpha A = Inr P" "length P = length A" by blast
  with assms(5) have u: "m_step P A = Inr u" by (simp add: em_update_def)
  from u have "P \<noteq> []" by (auto simp: m_step_def Let_def split: if_splits)
  from m_step_total [OF this, of A] u P(2) have "length u = length A" "sum_list u = 1"
    by auto
  moreover have "\<forall>x \<in> set u. 0 \<le> x"
    using m_step_nonneg [OF e_step_nonneg [OF assms(1-4) P(1)] u] .
  ultimately show ?thesis by blast
qed

lemma em_loop_simplex:
  assumes "\<forall>row \<in> set A. length row = R" "\<forall>row \<in> set A. \<forall>a \<in> set row. 0 \<le> a"
  shows "length alpha = length A \<Longrightarrow> \<forall>p \<in> set alpha. 0 \<le> p \<Longrightarrow>
         k = 0 \<longrightarrow> sum_list alpha = 1 \<Longrightarrow>
         em_loop A tol k n alpha = Inr (r, st) \<Longrightarrow>
         length r = length A \<and> (\<forall>x \<in> set r. 0 \<le> x) \<and> sum_list r = 1"
proof (induction k arbitrary: n alpha)
  case 0
  then show ?case by simp
next
  case (Suc k)
  from Suc.prems(4) obtain u d
    where u: "em_update A alpha = Inr u" and d: "max_abs_diff u alpha = Inr d"
    by (auto split: sum.splits)
  from em_update_simplex [OF Suc.prems(1) assms Suc.prems(2) u]
  have good: "length u = length A" "\<forall>x \<in> set u. 0 \<le> x" "sum_list u = 1" by simp_all
  show ?case
  proof (cases "d < tol")
    case True
    with Suc.prems(4) u d good show ?thesis by simp
  next
    case False
    with Suc.prems(4) u d have "em_loop A tol k (n + 1) u = Inr (r, st)" by simp
    from Suc.IH [OF good(1,2) _ this] good(3) show ?thesis by simp
  qed
qed

text \<open>
  Claim C4. For a matrix with at least one row, rows of one length and no negative
  entry, and a budget of at least one iteration, \<open>run_em_algorithm\<close> from the default
  start returns a vector with one entry per row, none negative, summing to 1 (in exact
  arithmetic), through either exit of the loop.
\<close>

theorem nonnegative_simplex_result:
  assumes "A \<noteq> []" "\<forall>row \<in> set A. length row = R"
    and "\<forall>row \<in> set A. \<forall>a \<in> set row. 0 \<le> a" "1 \<le> max_iters"
  shows "\<exists>res. run_em_algorithm A None tol max_iters = Inr res \<and>
               length (final_abundance res) = length A \<and>
               (\<forall>x \<in> set (final_abundance res). 0 \<le> x) \<and>
               sum_list (final_abundance res) = 1"
proof -
  define alpha where "alpha = replicate (length A) (1 / real (length A))"
  have a: "initialize A None = Inr alpha"
    using assms(1) by (simp add: initialize_def Let_def alpha_def)
  have len: "length alpha = length A" by (simp add: alpha_def)
  have nonneg: "\<forall>p \<in> set alpha. 0 \<le> p" by (simp add: alpha_def)
  from em_loop_total [OF len assms(1), of tol "nat max_iters" 0] obtain r st
    where r: "em_loop A tol (nat max_iters) 0 alpha = Inr (r, st)" by blast
  have "nat max_iters = 0 \<longrightarrow> sum_list alpha = 1" using assms(4) by simp
  from em_loop_simplex [OF assms(2,3) len nonneg this r]
  have "length r = length A \<and> (\<forall>x \<in> set r. 0 \<le> x) \<and> sum_list r = 1" .
  with a r show ?thesis
    by (cases st) (simp_all add: run_em_algorithm_def)
qed

theorem nonnegative_simplex_result_witness:
  "\<exists>res. run_em_algorithm [[1, 0, 1, 1, 1], [1, 1, 0, 0, 1], [1, 1, 1, 0, 0]] None
           (1 / 10000) 10000 = Inr res \<and>
         length (final_abundance res) = 3 \<and>
         (\<forall>x \<in> set (final_abundance res). 0 \<le> x) \<and>
         sum_list (final_abundance res) = 1"
  using nonnegative_simplex_result
    [of "[[1, 0, 1, 1, 1], [1, 1, 0, 0, 1], [1, 1, 1, 0, 0]]" 5 10000 "1 / 10000"]
  by (simp add: eval_nat_numeral)

section \<open>The store-level functions compute the same values\<close>

lemma masked_row_zeros:
  "map2 (\<lambda>(w, c) old. if c \<noteq> 0 then w / c else old) (zip row cs) (map (\<lambda>_. 0) row) =
   map2 (\<lambda>w c. if c \<noteq> 0 then w / c else (0::real)) row cs"
proof (induction row arbitrary: cs)
  case Nil
  then show ?case by simp
next
  case (Cons w row)
  then show ?case by (cases cs) simp_all
qed

lemma masked_divide_zeros:
  "masked_divide W (stretch (length W) [cs]) (map (map (\<lambda>_. 0)) W) = safe_divide W cs"
proof -
  have "masked_divide W (replicate (length W) cs) (map (map (\<lambda>_. 0)) W) = safe_divide W cs"
    by (induction W) (simp_all add: masked_divide_def safe_divide_def masked_row_zeros)
  then show ?thesis by (simp add: stretch_def)
qed

lemma unchanged_refl: "unchanged s s"
  by (simp add: unchanged_def)

lemma unchanged_trans: "unchanged s s1 \<Longrightarrow> unchanged s1 s2 \<Longrightarrow> unchanged s s2"
  by (auto simp: unchanged_def)

lemma prefix_nth: "prefix xs ys \<Longrightarrow> i < length xs \<Longrightarrow> ys ! i = xs ! i"
  by (auto simp: prefix_def nth_append)

lemma prefix_update_fresh: "prefix xs ys \<Longrightarrow> length xs \<le> i \<Longrightarrow> prefix xs (ys[i := v])"
  by (auto simp: prefix_def list_update_append)

lemma unchanged_vec_at: "unchanged s s' \<Longrightarrow> r < length (vectors s) \<Longrightarrow> vec_at s' r = vec_at s r"
  by (auto simp: unchanged_def vec_at_def prefix_nth)

lemma unchanged_mat_at: "unchanged s s' \<Longrightarrow> r < length (matrices s) \<Longrightarrow> mat_at s' r = mat_at s r"
  by (auto simp: unchanged_def mat_at_def prefix_nth)

lemma unchanged_lengths:
  "unchanged s s' \<Longrightarrow> length (vectors s) \<le> length (vectors s') \<and>
                      length (matrices s) \<le> length (matrices s')"
  by (auto simp: unchanged_def dest: prefix_length_le)

lemma e_step_st_spec:
  assumes "A < length (matrices s)" "pv < length (vectors s)"
    and "e_step_st pv A s = (res, s')"
  shows "unchanged s s' \<and> stdout s' = stdout s \<and>
         (case res of
            Inl e \<Rightarrow> e_step (vec_at s pv) (mat_at s A) = Inl e
          | Inr r \<Rightarrow> r < length (matrices s') \<and>
                     e_step (vec_at s pv) (mat_at s A) = Inr (mat_at s' r))"
  using assms
  by (auto simp: e_step_st_def bind_st_def asarray_matrix_def asarray_vector_def
      new_matrix_def new_vector_def multiply_rows_def sum_axis0_def zeros_like_def
      divide_where_def e_step_def unchanged_def vec_at_def mat_at_def nth_append
      masked_divide_zeros list_update_append
      split: sum.splits if_splits)


lemma m_step_st_spec:
  assumes "P < length (matrices s)" "m_step_st P A s = (res, s')"
  shows "unchanged s s' \<and> stdout s' = stdout s \<and>
         (case res of
            Inl e \<Rightarrow> m_step (mat_at s P) X = Inl e
          | Inr r \<Rightarrow> r < length (vectors s') \<and> length (vectors s) \<le> r \<and>
                     m_step (mat_at s P) X = Inr (vec_at s' r))"
  using assms
  by (auto simp: m_step_st_def bind_st_def asarray_matrix_def sum_axis1_def
      new_matrix_def new_vector_def m_step_def unchanged_def vec_at_def mat_at_def
      nth_append Let_def
      split: sum.splits if_splits)

lemma max_abs_diff_st_spec:
  assumes "u < length (vectors s)" "a < length (vectors s)"
    and "max_abs_diff_st u a s = (res, s')"
  shows "unchanged s s' \<and> stdout s' = stdout s \<and>
         max_abs_diff (vec_at s u) (vec_at s a) = res"
  using assms
  by (auto simp: max_abs_diff_st_def bind_st_def new_vector_def max_abs_diff_def
      unchanged_def vec_at_def nth_append
      split: sum.splits if_splits)

lemma em_update_st:
  assumes "A < length (matrices s)" "alpha < length (vectors s)"
    and "e_step_st alpha A s = (Inr posterior, s1)"
    and "m_step_st posterior A s1 = (res, s2)"
  shows "unchanged s s2 \<and> stdout s2 = stdout s \<and>
         (case res of
            Inl e \<Rightarrow> em_update (mat_at s A) (vec_at s alpha) = Inl e
          | Inr r \<Rightarrow> r < length (vectors s2) \<and> length (vectors s) \<le> r \<and>
                     em_update (mat_at s A) (vec_at s alpha) = Inr (vec_at s2 r))"
proof -
  from e_step_st_spec [OF assms(1-3)]
  have e: "unchanged s s1" "stdout s1 = stdout s" "posterior < length (matrices s1)"
    "e_step (vec_at s alpha) (mat_at s A) = Inr (mat_at s1 posterior)"
    by simp_all
  from m_step_st_spec [OF e(3) assms(4), of "mat_at s A"]
  have m: "unchanged s1 s2" "stdout s2 = stdout s1"
    "case res of
       Inl e \<Rightarrow> m_step (mat_at s1 posterior) (mat_at s A) = Inl e
     | Inr r \<Rightarrow> r < length (vectors s2) \<and> length (vectors s1) \<le> r \<and>
                m_step (mat_at s1 posterior) (mat_at s A) = Inr (vec_at s2 r)"
    by simp_all
  from e(1) m(1) have "unchanged s s2" by (rule unchanged_trans)
  moreover from e(2) m(2) have "stdout s2 = stdout s" by simp
  moreover have "length (vectors s) \<le> length (vectors s1)"
    using unchanged_lengths [OF e(1)] by simp
  ultimately show ?thesis
    using e(4) m(3) by (auto simp: em_update_def split: sum.splits)
qed


lemma em_loop_st_spec:
  "A < length (matrices s) \<Longrightarrow> alpha < length (vectors s) \<Longrightarrow>
   em_loop_st A tol k i alpha s = (res, s') \<Longrightarrow>
   unchanged s s' \<and> stdout s' = stdout s \<and>
   (case res of
      Inl e \<Rightarrow> em_loop (mat_at s A) tol k i (vec_at s alpha) = Inl e
    | Inr (r, st) \<Rightarrow> r < length (vectors s') \<and>
                      (r = alpha \<or> length (vectors s) \<le> r) \<and>
                      em_loop (mat_at s A) tol k i (vec_at s alpha) = Inr (vec_at s' r, st))"
proof (induction k arbitrary: i alpha s)
  case 0
  then show ?case by (auto simp: unchanged_refl)
next
  case (Suc k)
  obtain r1 s1 where e: "e_step_st alpha A s = (r1, s1)" by (cases "e_step_st alpha A s")
  show ?case
  proof (cases r1)
    case (Inl err)
    with e Suc.prems(3) have "res = Inl err" "s' = s1" by simp_all
    with e_step_st_spec [OF Suc.prems(1,2) e] Inl show ?thesis
      by (simp add: em_update_def)
  next
    case (Inr posterior)
    note e = e [unfolded Inr]
    obtain r2 s2 where m: "m_step_st posterior A s1 = (r2, s2)"
      by (cases "m_step_st posterior A s1")
    note upd = em_update_st [OF Suc.prems(1,2) e m]
    show ?thesis
    proof (cases r2)
      case (Inl err)
      with e m Suc.prems(3) have "res = Inl err" "s' = s2" by simp_all
      with upd Inl show ?thesis by simp
    next
      case (Inr updated)
      from upd Inr have u: "unchanged s s2" "stdout s2 = stdout s"
        "updated < length (vectors s2)"
        "em_update (mat_at s A) (vec_at s alpha) = Inr (vec_at s2 updated)"
        "length (vectors s) \<le> updated"
        by simp_all
      have a2: "alpha < length (vectors s2)" "vec_at s2 alpha = vec_at s alpha"
        using unchanged_lengths [OF u(1)] unchanged_vec_at [OF u(1) Suc.prems(2)] Suc.prems(2)
        by simp_all
      obtain r3 s3 where c: "max_abs_diff_st updated alpha s2 = (r3, s3)"
        by (cases "max_abs_diff_st updated alpha s2")
      from max_abs_diff_st_spec [OF u(3) a2(1) c] a2(2)
      have d: "unchanged s2 s3" "stdout s3 = stdout s2"
        "max_abs_diff (vec_at s2 updated) (vec_at s alpha) = r3"
        by simp_all
      have u3: "unchanged s s3" using u(1) d(1) by (rule unchanged_trans)
      have v3: "vec_at s3 updated = vec_at s2 updated" "updated < length (vectors s3)"
        using unchanged_vec_at [OF d(1) u(3)] unchanged_lengths [OF d(1)] u(3) by simp_all
      show ?thesis
      proof (cases r3)
        case (Inl err)
        with e m c Inr Suc.prems(3) have "res = Inl err" "s' = s3" by simp_all
        with u3 u(2,4) d(2,3) Inl show ?thesis by simp
      next
        case diff: (Inr dv)
        show ?thesis
        proof (cases "dv < tol")
          case True
          with e m c Inr diff Suc.prems(3)
          have "res = Inr (updated, Some (i + 1))" "s' = s3" by simp_all
          with u3 u(2,4,5) d(2,3) v3 diff True show ?thesis by simp
        next
          case False
          with e m c Inr diff Suc.prems(3)
          have rec: "em_loop_st A tol k (i + 1) updated s3 = (res, s')" by simp
          have A3: "A < length (matrices s3)" "mat_at s3 A = mat_at s A"
            using unchanged_lengths [OF u3] unchanged_mat_at [OF u3 Suc.prems(1)] Suc.prems(1)
            by simp_all
          from Suc.IH [OF A3(1) v3(2) rec] A3(2) v3(1)
          have ih: "unchanged s3 s'" "stdout s' = stdout s3"
            "case res of
               Inl e \<Rightarrow> em_loop (mat_at s A) tol k (i + 1) (vec_at s2 updated) = Inl e
             | Inr (r, st) \<Rightarrow> r < length (vectors s') \<and>
                 (r = alpha \<or> length (vectors s) \<le> r) \<and>
                 em_loop (mat_at s A) tol k (i + 1) (vec_at s2 updated) = Inr (vec_at s' r, st)"
            using u(5) unchanged_lengths [OF u3] by (auto split: sum.splits)
          have step: "em_loop (mat_at s A) tol (Suc k) i (vec_at s alpha) =
                      em_loop (mat_at s A) tol k (i + 1) (vec_at s2 updated)"
            using u(4) d(3) diff False by simp
          have "unchanged s s'" using u3 ih(1) by (rule unchanged_trans)
          moreover have "stdout s' = stdout s" using ih(2) d(2) u(2) by simp
          ultimately show ?thesis using ih(3) unfolding step by blast
        qed
      qed
    qed
  qed
qed

lemma initialize_st_spec:
  assumes "A < length (matrices s)"
    and "case init of None \<Rightarrow> True | Some r \<Rightarrow> r < length (vectors s)"
    and "initialize_st A init s = (res, s')"
  shows "unchanged s s' \<and> stdout s' = stdout s \<and>
         (case res of
            Inl e \<Rightarrow> initialize (mat_at s A) (map_option (vec_at s) init) = Inl e
          | Inr r \<Rightarrow> r < length (vectors s') \<and> length (vectors s) \<le> r \<and>
                     initialize (mat_at s A) (map_option (vec_at s) init) = Inr (vec_at s' r))"
  using assms
  by (cases init)
     (auto simp: initialize_st_def initialize_def bind_st_def asarray_vector_def
      new_vector_def unchanged_def vec_at_def mat_at_def nth_append Let_def
      split: sum.splits if_splits)


lemma run_em_algorithm_st_spec:
  assumes "A < length (matrices s)"
    and "case init of None \<Rightarrow> True | Some r \<Rightarrow> r < length (vectors s)"
  shows "unchanged s (snd (run_em_algorithm_st A init tol max_iters s)) \<and>
         (\<forall>r n. fst (run_em_algorithm_st A init tol max_iters s) = Inr (r, n) \<longrightarrow>
                length (vectors s) \<le> r) \<and>
         observed s (run_em_algorithm_st A init tol max_iters s) =
           run_em_algorithm (mat_at s A) (map_option (vec_at s) init) tol max_iters"
proof -
  obtain r0 s0 where i0: "initialize_st A init s = (r0, s0)"
    by (cases "initialize_st A init s")
  note ini = initialize_st_spec [OF assms i0]
  show ?thesis
  proof (cases r0)
    case (Inl err)
    with i0 have "run_em_algorithm_st A init tol max_iters s = (Inl err, s0)"
      by (simp add: run_em_algorithm_st_def bind_st_def)
    with ini Inl show ?thesis
      by (simp add: observed_def run_em_algorithm_def)
  next
    case (Inr alpha)
    with ini have a: "unchanged s s0" "stdout s0 = stdout s" "alpha < length (vectors s0)"
      "length (vectors s) \<le> alpha"
      "initialize (mat_at s A) (map_option (vec_at s) init) = Inr (vec_at s0 alpha)"
      by simp_all
    have A0: "A < length (matrices s0)" "mat_at s0 A = mat_at s A"
      using unchanged_lengths [OF a(1)] unchanged_mat_at [OF a(1) assms(1)] assms(1)
      by simp_all
    obtain r1 s1 where l: "em_loop_st A tol (nat max_iters) 0 alpha s0 = (r1, s1)"
      by (cases "em_loop_st A tol (nat max_iters) 0 alpha s0")
    note loop = em_loop_st_spec [OF A0(1) a(3) l]
    from loop a(1) have u1: "unchanged s s1" by (auto intro: unchanged_trans)
    from loop a(2) have o1: "stdout s1 = stdout s" by simp
    show ?thesis
    proof (cases r1)
      case (Inl err)
      with i0 Inr l have "run_em_algorithm_st A init tol max_iters s = (Inl err, s1)"
        by (simp add: run_em_algorithm_st_def bind_st_def)
      with loop Inl u1 a(5) A0(2) show ?thesis
        by (simp add: observed_def run_em_algorithm_def)
    next
      case res: (Inr pair)
      obtain r st where pair: "pair = (r, st)" by (cases pair)
      from loop res pair A0(2) have lp: "r < length (vectors s1)"
        "r = alpha \<or> length (vectors s0) \<le> r"
        "em_loop (mat_at s A) tol (nat max_iters) 0 (vec_at s0 alpha) = Inr (vec_at s1 r, st)"
        by simp_all
      from lp(2) a(4) unchanged_lengths [OF a(1)] have fresh: "length (vectors s) \<le> r"
        by auto
      show ?thesis
      proof (cases st)
        case None
        with i0 Inr l res pair
        have "run_em_algorithm_st A init tol max_iters s =
                (Inr (r, max_iters), s1\<lparr>stdout := stdout s1 @ [NotConvergedWarning max_iters]\<rparr>)"
          by (simp add: run_em_algorithm_st_def bind_st_def print_def)
        with u1 o1 fresh lp(3) a(5) None show ?thesis
          by (simp add: observed_def run_em_algorithm_def unchanged_def vec_at_def)
      next
        case (Some n)
        with i0 Inr l res pair
        have "run_em_algorithm_st A init tol max_iters s = (Inr (r, int n), s1)"
          by (simp add: run_em_algorithm_st_def bind_st_def)
        with u1 o1 fresh lp(3) a(5) Some show ?thesis
          by (simp add: observed_def run_em_algorithm_def)
      qed
    qed
  qed
qed

section \<open>Frame and determinism of the calls\<close>

lemmas store_defs = run_em_algorithm_st_def initialize_st_def bind_st_def asarray_vector_def asarray_matrix_def
  new_vector_def new_matrix_def vec_at_def mat_at_def e_step_st_def m_step_st_def max_abs_diff_st_def
  multiply_rows_def sum_axis0_def sum_axis1_def zeros_like_def divide_where_def masked_divide_def print_def
  scale_rows_def broadcast_dim_def stretch_def col_sums_def ncols_def column_def vec_sub_def

lemma e_step_st_frame:
  assumes "A < length (matrices s)" "pv < length (vectors s)"
  shows "unchanged s (snd (e_step_st pv A s)) \<and>
         (\<forall>r. fst (e_step_st pv A s) = Inr r \<longrightarrow> length (matrices s) \<le> r)"
  using assms
  by (auto simp: e_step_st_def bind_st_def asarray_matrix_def asarray_vector_def
      new_matrix_def new_vector_def multiply_rows_def sum_axis0_def zeros_like_def
      divide_where_def unchanged_def list_update_append
      split: sum.splits if_splits)

text \<open>
  Claim C10. Whatever array objects exist before a call of \<open>e_step\<close>, \<open>m_step\<close> or
  \<open>run_em_algorithm\<close> (the arguments among them) exist after it with the same dtype and
  the same entries, whether the call returns or raises. What a call returns is an object
  it allocated itself: the posterior, the updated abundance, and for
  \<open>run_em_algorithm\<close> never the caller's starting vector, of which a copy is taken
  before the loop.
\<close>

theorem arguments_not_mutated:
  assumes "A < length (matrices s)" "pv < length (vectors s)" "P < length (matrices s)"
    and "case init of None \<Rightarrow> True | Some r \<Rightarrow> r < length (vectors s)"
  shows "unchanged s (snd (e_step_st pv A s)) \<and>
         unchanged s (snd (m_step_st P A s)) \<and>
         unchanged s (snd (run_em_algorithm_st A init tol max_iters s)) \<and>
         (\<forall>r. fst (e_step_st pv A s) = Inr r \<longrightarrow> length (matrices s) \<le> r) \<and>
         (\<forall>r. fst (m_step_st P A s) = Inr r \<longrightarrow> length (vectors s) \<le> r) \<and>
         (\<forall>r n. fst (run_em_algorithm_st A init tol max_iters s) = Inr (r, n) \<longrightarrow>
                length (vectors s) \<le> r)"
proof -
  obtain rm sm where m: "m_step_st P A s = (rm, sm)" by (cases "m_step_st P A s")
  from m_step_st_spec [OF assms(3) m, where X = "[]"]
  have "unchanged s (snd (m_step_st P A s))"
    "\<forall>r. fst (m_step_st P A s) = Inr r \<longrightarrow> length (vectors s) \<le> r"
    by (auto simp: m)
  with e_step_st_frame [OF assms(1,2)]
    run_em_algorithm_st_spec [OF assms(1,4), of tol max_iters]
  show ?thesis by blast
qed

theorem arguments_not_mutated_witness:
  "unchanged demo_store (snd (e_step_st 0 0 demo_store)) \<and>
   unchanged demo_store (snd (m_step_st 1 0 demo_store)) \<and>
   unchanged demo_store (snd (run_em_algorithm_st 0 (Some 0) (1 / 10000) 1 demo_store)) \<and>
   fst (e_step_st 0 0 demo_store) = Inr 5 \<and>
   fst (m_step_st 1 0 demo_store) = Inr 2 \<and>
   fst (run_em_algorithm_st 0 (Some 0) (1 / 10000) 1 demo_store) = Inr (3, 1)"
proof -
  have v: "0 < length (matrices demo_store)" "0 < length (vectors demo_store)"
    "1 < length (matrices demo_store)"
    "case Some 0 of None \<Rightarrow> True | Some r \<Rightarrow> r < length (vectors demo_store)"
    by (simp_all add: demo_store_def)
  have "fst (e_step_st 0 0 demo_store) = Inr 5"
    by (simp add: demo_store_def store_defs)
  moreover have "fst (m_step_st 1 0 demo_store) = Inr 2"
    by (simp add: demo_store_def store_defs)
  moreover have "fst (run_em_algorithm_st 0 (Some 0) (1 / 10000) 1 demo_store) = Inr (3, 1)"
    by (simp add: demo_store_def store_defs eval_nat_numeral)
  ultimately show ?thesis
    using arguments_not_mutated [OF v, of "1 / 10000" 1] by blast
qed

text \<open>
  Claim C8. Two calls of \<open>run_em_algorithm\<close> with the same tolerance and budget, on
  matrices with the same entries and on starting vectors that are both absent or have the
  same entries, give the caller the same thing: the same exception, or the same abundance
  entries, the same iteration count and the same printed output. The two calls may start
  in any two stores, the second for instance in the store the first has left behind:
  nothing but the arguments is read.
\<close>

theorem run_deterministic:
  assumes "A1 < length (matrices s1)" "A2 < length (matrices s2)"
    and "case init1 of None \<Rightarrow> True | Some r \<Rightarrow> r < length (vectors s1)"
    and "case init2 of None \<Rightarrow> True | Some r \<Rightarrow> r < length (vectors s2)"
    and "mat_at s1 A1 = mat_at s2 A2"
    and "map_option (vec_at s1) init1 = map_option (vec_at s2) init2"
  shows "observed s1 (run_em_algorithm_st A1 init1 tol max_iters s1) =
         observed s2 (run_em_algorithm_st A2 init2 tol max_iters s2)"
  using run_em_algorithm_st_spec [OF assms(1,3), of tol max_iters]
    run_em_algorithm_st_spec [OF assms(2,4), of tol max_iters] assms(5,6)
  by simp

theorem run_deterministic_witness:
  "mat_at demo_store 0 = mat_at demo_store_float 1 \<and>
   map_option (vec_at demo_store) (Some 0) = map_option (vec_at demo_store_float) (Some 1) \<and>
   observed demo_store (run_em_algorithm_st 0 (Some 0) (1 / 10000) 1 demo_store) =
   observed demo_store_float (run_em_algorithm_st 1 (Some 1) (1 / 10000) 1 demo_store_float)"
proof -
  have v: "0 < length (matrices demo_store)" "1 < length (matrices demo_store_float)"
    "case Some 0 of None \<Rightarrow> True | Some r \<Rightarrow> r < length (vectors demo_store)"
    "case Some 1 of None \<Rightarrow> True | Some r \<Rightarrow> r < length (vectors demo_store_float)"
    "mat_at demo_store 0 = mat_at demo_store_float 1"
    "map_option (vec_at demo_store) (Some 0) = map_option (vec_at demo_store_float) (Some 1)"
    by (simp_all add: demo_store_def demo_store_float_def mat_at_def vec_at_def)
  from run_deterministic [OF v, of "1 / 10000" 1] v(5,6) show ?thesis by blast
qed

lemma run_em_algorithm_st_demo:
  "observed demo_store (run_em_algorithm_st 0 (Some 0) (1 / 10000) 1 demo_store) =
     Inr \<lparr>final_abundance = [3 / 10, 7 / 10], n_iterations = 1,
          printed = [NotConvergedWarning 1]\<rparr>"
  by (simp add: demo_store_def store_defs observed_def eval_nat_numeral)

end
